theory Spec2Isabelle
  imports Complex_Main
begin

section \<open>Values and exceptions\<close>

text \<open>
  Decoded JSON values, as Python's \<open>json\<close> module builds them: \<open>None\<close>, booleans, integers,
  floats (kept as their lexeme), strings, lists and dicts (the pairs in source order; a lookup
  takes the last pair of a repeated key, as \<open>dict(pairs)\<close> does).
\<close>

datatype json =
    JNull
  | JBool bool
  | JInt int
  | JFloat string
  | JString string
  | JArray "json list"
  | JObject "(string \<times> json) list"

text \<open>
  The exceptions that the provider raises or lets through. \<open>OSError\<close> carries its
  \<open>errno\<close>; \<open>BrokenPipeError\<close> is the \<open>OSError\<close> whose \<open>errno\<close> is \<open>EPIPE\<close>.
  The messages of \<open>ProviderConnectionError\<close> are kept structured: the f-strings of the
  source interpolate exactly the values carried here. \<open>CancelledError\<close> and
  \<open>GeneratorExit\<close> derive from \<open>BaseException\<close>, not from \<open>Exception\<close> (Python 3.8
  and later).
\<close>

datatype exn =
    OSError int
  | ProviderConnectionError pce_message
  | TimeExhausted json int
  | AttributeError string
  | KeyError string
  | StopAsyncIteration
  | OtherException string
  | CancelledError
  | GeneratorExit
and pce_message =
    NotInitiated
  | RetriesExceeded string int
  | ProblemConnecting exn

definition EPIPE :: int where
  "EPIPE = 32"

fun is_OSError :: "exn \<Rightarrow> bool" where
  "is_OSError (OSError n) = True"
| "is_OSError e = False"

fun errno :: "exn \<Rightarrow> int option" where
  "errno (OSError n) = Some n"
| "errno e = None"

fun is_ProviderConnectionError :: "exn \<Rightarrow> bool" where
  "is_ProviderConnectionError (ProviderConnectionError m) = True"
| "is_ProviderConnectionError e = False"

fun is_Exception :: "exn \<Rightarrow> bool" where
  "is_Exception CancelledError = False"
| "is_Exception GeneratorExit = False"
| "is_Exception e = True"

section \<open>Text and the JSON decoder\<close>

text \<open>
  Text is a list of code points below 256. \<open>str.lstrip()\<close> without argument removes the
  leading characters for which \<open>str.isspace\<close> holds; below 256 these are the code points
  9 to 13, 28 to 32, 133 and 160.
\<close>

definition py_isspace :: "char \<Rightarrow> bool" where
  "py_isspace c =
     (let n = (of_char c :: nat)
      in (9 \<le> n \<and> n \<le> 13) \<or> (28 \<le> n \<and> n \<le> 32) \<or> n = 133 \<or> n = 160)"

definition lstrip :: "string \<Rightarrow> string" where
  "lstrip s = dropWhile py_isspace s"

text \<open>
  \<open>json.JSONDecoder().raw_decode\<close> belongs to Python's standard library. It is modelled
  here as the library's scanner works (\<open>json.scanner\<close>, \<open>json.decoder\<close>, strict mode,
  no hooks): the whitespace between tokens is space, tab, line feed and carriage return; a
  string ends at the first unescaped quote, and a control character inside it is an error.
  A \<open>\u\<close> escape is decoded when its code point is below 256 and is outside the model
  otherwise. Each function returns the value with the text that follows it, and \<open>None\<close>
  where the library raises \<open>JSONDecodeError\<close>.
\<close>

definition json_ws :: "char \<Rightarrow> bool" where
  "json_ws c = (c = CHR '' '' \<or> c = CHR 0x09 \<or> c = CHR 0x0A \<or> c = CHR 0x0D)"

definition skip_ws :: "string \<Rightarrow> string" where
  "skip_ws s = dropWhile json_ws s"

definition is_digit :: "char \<Rightarrow> bool" where
  "is_digit c = (48 \<le> (of_char c :: nat) \<and> (of_char c :: nat) \<le> 57)"

definition digit_val :: "char \<Rightarrow> nat" where
  "digit_val c = of_char c - 48"

definition hex_val :: "char \<Rightarrow> nat option" where
  "hex_val c =
     (let n = (of_char c :: nat)
      in if 48 \<le> n \<and> n \<le> 57 then Some (n - 48)
         else if 97 \<le> n \<and> n \<le> 102 then Some (n - 87)
         else if 65 \<le> n \<and> n \<le> 70 then Some (n - 55)
         else None)"

definition backslash :: "char \<Rightarrow> char option" where
  "backslash c =
     (if c = CHR 0x22 then Some (CHR 0x22)
      else if c = CHR 0x5C then Some (CHR 0x5C)
      else if c = CHR ''/'' then Some (CHR ''/'')
      else if c = CHR ''b'' then Some (CHR 0x08)
      else if c = CHR ''f'' then Some (CHR 0x0C)
      else if c = CHR ''n'' then Some (CHR 0x0A)
      else if c = CHR ''r'' then Some (CHR 0x0D)
      else if c = CHR ''t'' then Some (CHR 0x09)
      else None)"

definition decode_uXXXX :: "string \<Rightarrow> char option" where
  "decode_uXXXX s =
     (case s of
        a # b # c # d # rest \<Rightarrow>
          (case (hex_val a, hex_val b, hex_val c, hex_val d) of
             (Some x3, Some x2, Some x1, Some x0) \<Rightarrow>
               (let n = ((x3 * 16 + x2) * 16 + x1) * 16 + x0
                in if n < 256 then Some (char_of n) else None)
           | _ \<Rightarrow> None)
      | _ \<Rightarrow> None)"

text \<open>\<open>scanstring\<close>, entered after the opening quote.\<close>

fun scanstring :: "string \<Rightarrow> (string \<times> string) option" where
  "scanstring [] = None"
| "scanstring (c # cs) =
     (if c = CHR 0x22 then Some ([], cs)
      else if c = CHR 0x5C then
        (case cs of
           [] \<Rightarrow> None
         | esc # cs' \<Rightarrow>
             if esc = CHR ''u'' then
               (case decode_uXXXX cs' of
                  None \<Rightarrow> None
                | Some ch \<Rightarrow>
                    (case scanstring (drop 4 cs') of
                       None \<Rightarrow> None
                     | Some (str, rest) \<Rightarrow> Some (ch # str, rest)))
             else
               (case backslash esc of
                  None \<Rightarrow> None
                | Some ch \<Rightarrow>
                    (case scanstring cs' of
                       None \<Rightarrow> None
                     | Some (str, rest) \<Rightarrow> Some (ch # str, rest))))
      else if (of_char c :: nat) < 32 then None
      else
        (case scanstring cs of
           None \<Rightarrow> None
         | Some (str, rest) \<Rightarrow> Some (c # str, rest)))"

text \<open>
  The number pattern \<open>(-?(?:0|[1-9]\d*))(\.\d+)?([eE][-+]?\d+)?\<close>: an integer when the
  fraction and the exponent are both absent, a float otherwise.
\<close>

definition match_integer :: "string \<Rightarrow> (string \<times> string) option" where
  "match_integer s =
     (let (sign, s1) = (case s of c # cs \<Rightarrow> if c = CHR ''-'' then ([c], cs) else ([], s) | [] \<Rightarrow> ([], s))
      in case s1 of
           [] \<Rightarrow> None
         | d # ds \<Rightarrow>
             if d = CHR ''0'' then Some (sign @ [d], ds)
             else if is_digit d then Some (sign @ takeWhile is_digit s1, dropWhile is_digit s1)
             else None)"

definition match_frac :: "string \<Rightarrow> string \<times> string" where
  "match_frac s =
     (case s of
        c # d # ds \<Rightarrow>
          if c = CHR ''.'' \<and> is_digit d
          then (c # takeWhile is_digit (d # ds), dropWhile is_digit (d # ds))
          else ([], s)
      | _ \<Rightarrow> ([], s))"

definition match_exp :: "string \<Rightarrow> string \<times> string" where
  "match_exp s =
     (case s of
        e # cs \<Rightarrow>
          if e = CHR ''e'' \<or> e = CHR ''E'' then
            (let (sign, ds) = (case cs of c # cs' \<Rightarrow>
                                 if c = CHR ''-'' \<or> c = CHR ''+'' then ([c], cs') else ([], cs)
                               | [] \<Rightarrow> ([], cs))
             in case ds of
                  d # ds' \<Rightarrow>
                    if is_digit d
                    then (e # sign @ takeWhile is_digit ds, dropWhile is_digit ds)
                    else ([], s)
                | [] \<Rightarrow> ([], s))
          else ([], s)
      | [] \<Rightarrow> ([], s))"

definition int_of_lexeme :: "string \<Rightarrow> int" where
  "int_of_lexeme l =
     (case l of
        c # cs \<Rightarrow>
          if c = CHR ''-'' then - foldl (\<lambda>a d. 10 * a + int (digit_val d)) 0 cs
          else foldl (\<lambda>a d. 10 * a + int (digit_val d)) 0 l
      | [] \<Rightarrow> 0)"

definition match_number :: "string \<Rightarrow> (json \<times> string) option" where
  "match_number s =
     (case match_integer s of
        None \<Rightarrow> None
      | Some (integer, s1) \<Rightarrow>
          (let (frac, s2) = match_frac s1; (exp, s3) = match_exp s2
           in if frac \<noteq> [] \<or> exp \<noteq> []
              then Some (JFloat (integer @ frac @ exp), s3)
              else Some (JInt (int_of_lexeme integer), s3)))"

definition literal :: "string \<Rightarrow> json \<Rightarrow> string \<Rightarrow> (json \<times> string) option" where
  "literal p v s = (if take (length p) s = p then Some (v, drop (length p) s) else None)"

fun first_match :: "(string \<Rightarrow> (json \<times> string) option) list \<Rightarrow> string \<Rightarrow> (json \<times> string) option" where
  "first_match [] s = None"
| "first_match (m # ms) s = (case m s of Some r \<Rightarrow> Some r | None \<Rightarrow> first_match ms s)"

definition match_constant :: "string \<Rightarrow> (json \<times> string) option" where
  "match_constant s =
     first_match
       [literal ''null'' JNull, literal ''true'' (JBool True), literal ''false'' (JBool False),
        match_number,
        literal ''NaN'' (JFloat ''NaN''), literal ''Infinity'' (JFloat ''Infinity''),
        literal ''-Infinity'' (JFloat ''-Infinity'')] s"

text \<open>
  \<open>scan_once\<close> with \<open>JSONObject\<close> and \<open>JSONArray\<close>. The first argument bounds the
  depth of the recursion; \<open>raw_decode\<close> passes more than the length of the text, which is
  enough for every text (\<open>raw_decode_fuel_adequate\<close> below). \<open>JSONObject\<close> is entered
  after the opening quote of a key, \<open>JSONArray\<close> at the start of a value.
\<close>

fun scan_once :: "nat \<Rightarrow> string \<Rightarrow> (json \<times> string) option"
and JSONObject :: "nat \<Rightarrow> string \<Rightarrow> ((string \<times> json) list \<times> string) option"
and JSONArray :: "nat \<Rightarrow> string \<Rightarrow> (json list \<times> string) option" where
  "scan_once 0 s = None"
| "scan_once (Suc n) [] = None"
| "scan_once (Suc n) (c # cs) =
     (if c = CHR 0x22 then
        (case scanstring cs of None \<Rightarrow> None | Some (str, rest) \<Rightarrow> Some (JString str, rest))
      else if c = CHR ''{'' then
        (case skip_ws cs of
           [] \<Rightarrow> None
         | d # ds \<Rightarrow>
             if d = CHR ''}'' then Some (JObject [], ds)
             else if d = CHR 0x22 then
               (case JSONObject n ds of
                  None \<Rightarrow> None
                | Some (pairs, rest) \<Rightarrow> Some (JObject pairs, rest))
             else None)
      else if c = CHR ''['' then
        (case skip_ws cs of
           [] \<Rightarrow> None
         | d # ds \<Rightarrow>
             if d = CHR '']'' then Some (JArray [], ds)
             else
               (case JSONArray n (d # ds) of
                  None \<Rightarrow> None
                | Some (values, rest) \<Rightarrow> Some (JArray values, rest)))
      else match_constant (c # cs))"
| "JSONObject 0 s = None"
| "JSONObject (Suc n) s =
     (case scanstring s of
        None \<Rightarrow> None
      | Some (key, s1) \<Rightarrow>
          (case skip_ws s1 of
             [] \<Rightarrow> None
           | colon # s2 \<Rightarrow>
               if colon \<noteq> CHR '':'' then None
               else
                 (case scan_once n (skip_ws s2) of
                    None \<Rightarrow> None
                  | Some (v, s3) \<Rightarrow>
                      (case skip_ws s3 of
                         [] \<Rightarrow> None
                       | nextchar # s4 \<Rightarrow>
                           if nextchar = CHR ''}'' then Some ([(key, v)], s4)
                           else if nextchar \<noteq> CHR '','' then None
                           else
                             (case skip_ws s4 of
                                [] \<Rightarrow> None
                              | q # s5 \<Rightarrow>
                                  if q \<noteq> CHR 0x22 then None
                                  else
                                    (case JSONObject n s5 of
                                       None \<Rightarrow> None
                                     | Some (pairs, rest) \<Rightarrow> Some ((key, v) # pairs, rest)))))))"
| "JSONArray 0 s = None"
| "JSONArray (Suc n) s =
     (case scan_once n s of
        None \<Rightarrow> None
      | Some (v, s1) \<Rightarrow>
          (case skip_ws s1 of
             [] \<Rightarrow> None
           | nextchar # s2 \<Rightarrow>
               if nextchar = CHR '']'' then Some ([v], s2)
               else if nextchar \<noteq> CHR '','' then None
               else
                 (case JSONArray n (skip_ws s2) of
                    None \<Rightarrow> None
                  | Some (values, rest) \<Rightarrow> Some (v # values, rest))))"

text \<open>\<open>raw_decode(s)\<close>: the value at the start of \<open>s\<close> and the index where it ends.\<close>

definition raw_decode :: "string \<Rightarrow> (json \<times> nat) option" where
  "raw_decode s =
     (case scan_once (Suc (length s)) s of
        None \<Rightarrow> None
      | Some (v, rest) \<Rightarrow> Some (v, length s - length rest))"

text \<open>
  \<open>response.get(key)\<close>: the method of a dict; any other decoded value has no attribute
  \<open>get\<close>.
\<close>

definition py_get :: "json \<Rightarrow> string \<Rightarrow> exn + json option" where
  "py_get v key =
     (case v of
        JObject pairs \<Rightarrow> Inr (map_of (rev pairs) key)
      | _ \<Rightarrow> Inl (AttributeError ''get''))"

section \<open>The provider and its surroundings\<close>

text \<open>
  A task of the event loop. \<open>cancel()\<close> on a pending task requests the cancellation, which
  the task meets at its next suspension point; on a finished task it does nothing.
\<close>

datatype task_state = Pending | Cancelling | Cancelled | Returned | Raised exn

record stream_writer =
  sock :: nat
  closing :: bool

datatype cache_key = CacheKey json

text \<open>
  The records that the provider hands to its logger, each with the values that its message
  interpolates (the retry message shows the delay rounded to one decimal).
\<close>

datatype log_entry =
    LogConnectRetry string rat
  | LogDisconnected string
  | LogPopping json
  | LogListenerStarted
  | LogListenerError exn

text \<open>
  The state that the methods of \<open>AsyncIPCProvider\<close> read and write: its own attributes
  (\<open>ipc_path\<close> to \<open>subscription_queues\<close>; the two caches are the state of its Request
  Processor, and \<open>message_listener_task\<close> is the state of the task object it holds), and
  what they reach outside the object: the other tasks of the event loop, the number of sockets
  opened, of writes made and of polls of a waiting request so far, the requests that reached a
  socket, the delays slept and the log.
\<close>

record provider =
  ipc_path :: string
  endpoint_uri :: string
  request_timeout :: int
  max_connection_retries :: int
  silence_listener_task_exceptions :: bool
  reader :: "nat option"
  writer :: "stream_writer option"
  message_listener_task :: "task_state option"
  request_counter :: nat
  request_response_cache :: "(cache_key \<times> json) list"
  subscription_queues :: "(json \<times> json list) list"
  tasks :: "task_state list"
  opened :: nat
  written :: nat
  polled :: nat
  sent :: "json list"
  slept :: "rat list"
  logged :: "log_entry list"

text \<open>
  What the operating system and the peer do, asked in the order the code acts:
  the outcome of the k-th call of \<open>async_get_ipc_socket\<close> and of the k-th
  \<open>write\<close> + \<open>drain\<close> (\<open>None\<close>: no exception), what the other tasks of the loop do to the
  state while the k-th \<open>await asyncio.sleep(0)\<close> of a waiting request cedes control, and how
  many such polls fit into a timeout of so many seconds.
\<close>

record env =
  open_result :: "nat \<Rightarrow> exn option"
  write_result :: "nat \<Rightarrow> exn option"
  other_tasks :: "nat \<Rightarrow> provider \<Rightarrow> provider"
  polls_within :: "int \<Rightarrow> nat"

type_synonym 'a outcome = "(exn + 'a) \<times> provider"

section \<open>connect\<close>

definition async_get_ipc_socket :: "env \<Rightarrow> provider \<Rightarrow> nat outcome" where
  "async_get_ipc_socket E s =
     (let k = opened s; s1 = s\<lparr>opened := Suc k\<rparr>
      in case open_result E k of
           Some e \<Rightarrow> (Inl e, s1)
         | None \<Rightarrow> (Inr k, s1))"

text \<open>
  \<open>self._message_listener_task = asyncio.create_task(...)\<close>: the attribute now holds a new
  pending task. A task it held before stays on the loop, among the other tasks.
\<close>

definition create_listener_task :: "provider \<Rightarrow> provider" where
  "create_listener_task s =
     (case message_listener_task s of
        None \<Rightarrow> s\<lparr>message_listener_task := Some Pending\<rparr>
      | Some old \<Rightarrow> s\<lparr>tasks := tasks s @ [old], message_listener_task := Some Pending\<rparr>)"

definition backoff_rate_change :: rat where
  "backoff_rate_change = 175 / 100"

definition initial_backoff_time :: rat where
  "initial_backoff_time = 175 / 100"

text \<open>
  The \<open>while\<close> loop of \<open>connect\<close>, with its two local variables as arguments. It compares
  the attempt count with \<open>!=\<close>, so it need not end: not returning is the value \<open>None\<close>.
\<close>

partial_function (option) connect_loop ::
  "env \<Rightarrow> int \<Rightarrow> rat \<Rightarrow> provider \<Rightarrow> unit outcome option" where
  "connect_loop E connection_attempts backoff_time s =
     (if connection_attempts = max_connection_retries s then Some (Inr (), s)
      else
        let connection_attempts = connection_attempts + 1
        in case async_get_ipc_socket E s of
             (Inr k, s1) \<Rightarrow>
               Some (Inr (), create_listener_task
                       (s1\<lparr>reader := Some k, writer := Some \<lparr>sock = k, closing = False\<rparr>\<rparr>))
           | (Inl e, s1) \<Rightarrow>
               if is_OSError e then
                 (if connection_attempts = max_connection_retries s1
                  then Some (Inl (ProviderConnectionError
                         (RetriesExceeded (endpoint_uri s1) (max_connection_retries s1))), s1)
                  else connect_loop E connection_attempts (backoff_time * backoff_rate_change)
                         (s1\<lparr>logged := logged s1 @ [LogConnectRetry (endpoint_uri s1) backoff_time],
                             slept := slept s1 @ [backoff_time]\<rparr>))
               else Some (Inl e, s1))"

declare connect_loop.simps [code]

definition connect :: "env \<Rightarrow> provider \<Rightarrow> unit outcome option" where
  "connect E s = connect_loop E 0 initial_backoff_time s"

section \<open>The Request Processor\<close>

text \<open>
  Modelled from the spec: \<open>generate_cache_key\<close> (\<open>web3/_utils/caching.py\<close> is not among
  the sources). A cache key is derived from a request id, stable and collision-free.
\<close>

definition generate_cache_key :: "json \<Rightarrow> cache_key" where
  "generate_cache_key request_id = CacheKey request_id"

text \<open>
  Modelled from the spec: the id under which the Request Processor files a message, which is
  \<open>message.id\<close> for a response and the subscription id inside \<open>params\<close> for a
  subscription notification. A message that lacks the field is filed under \<open>None\<close>.
\<close>

definition message_id :: "json \<Rightarrow> json" where
  "message_id message = (case py_get message ''id'' of Inr (Some i) \<Rightarrow> i | _ \<Rightarrow> JNull)"

definition subscription_id :: "json \<Rightarrow> json" where
  "subscription_id message =
     (case py_get message ''params'' of
        Inr (Some params) \<Rightarrow>
          (case py_get params ''subscription'' of Inr (Some i) \<Rightarrow> i | _ \<Rightarrow> JNull)
      | _ \<Rightarrow> JNull)"

text \<open>
  Modelled from the spec: appending a notification to the queue of its subscription id,
  creating the queue if absent.
\<close>

fun enqueue :: "json \<Rightarrow> json \<Rightarrow> (json \<times> json list) list \<Rightarrow> (json \<times> json list) list" where
  "enqueue i m [] = [(i, [m])]"
| "enqueue i m ((j, q) # qs) = (if i = j then (j, q @ [m]) # qs else (j, q) # enqueue i m qs)"

text \<open>
  Modelled from the spec: \<open>cache_raw_response\<close> of the Request Processor
  (\<open>request_processor.py\<close> is not among the sources). A subscription message is appended to
  the queue of the subscription id it contains; any other message is stored under the cache
  key derived from its id, and a second message for an id whose entry has not been popped is
  an error, not an overwrite.
\<close>

definition cache_raw_response :: "json \<Rightarrow> bool \<Rightarrow> provider \<Rightarrow> unit outcome" where
  "cache_raw_response message subscription s =
     (if subscription then
        (Inr (), s\<lparr>subscription_queues :=
                     enqueue (subscription_id message) message (subscription_queues s)\<rparr>)
      else
        (let cache_key = generate_cache_key (message_id message)
         in if map_of (request_response_cache s) cache_key \<noteq> None
            then (Inl (OtherException ''duplicate response id''), s)
            else (Inr (), s\<lparr>request_response_cache :=
                              request_response_cache s @ [(cache_key, message)]\<rparr>)))"

text \<open>
  Modelled from the spec: \<open>pop_raw_response\<close> of the Request Processor. It removes and
  returns the entry under the key, or returns \<open>None\<close>, without an exception, when there is
  none.
\<close>

definition pop_raw_response :: "cache_key \<Rightarrow> provider \<Rightarrow> json option \<times> provider" where
  "pop_raw_response cache_key s =
     (map_of (request_response_cache s) cache_key,
      s\<lparr>request_response_cache :=
          filter (\<lambda>entry. fst entry \<noteq> cache_key) (request_response_cache s)\<rparr>)"

text \<open>
  Modelled from the spec: \<open>clear_caches\<close> of the Request Processor. It empties the response
  cache and all the subscription queues.
\<close>

definition clear_caches :: "provider \<Rightarrow> provider" where
  "clear_caches s = s\<lparr>request_response_cache := [], subscription_queues := []\<rparr>"

section \<open>disconnect\<close>

text \<open>
  \<open>task.cancel()\<close> followed by \<open>await task\<close>, for the listener task. A pending listener
  meets the cancellation at its suspension point: \<open>CancelledError\<close> is not an
  \<open>Exception\<close>, so the listener's handler lets it through and the task ends cancelled.
  Awaiting a cancelled task raises \<open>CancelledError\<close>, awaiting a task that raised raises its
  exception again.
\<close>

fun cancel :: "task_state \<Rightarrow> task_state" where
  "cancel Pending = Cancelling"
| "cancel t = t"

fun cancel_and_await :: "task_state \<Rightarrow> (exn + unit) \<times> task_state" where
  "cancel_and_await Pending = (Inl CancelledError, Cancelled)"
| "cancel_and_await Cancelling = (Inl CancelledError, Cancelled)"
| "cancel_and_await Cancelled = (Inl CancelledError, Cancelled)"
| "cancel_and_await Returned = (Inr (), Returned)"
| "cancel_and_await (Raised e) = (Inl e, Raised e)"

text \<open>
  \<open>disconnect\<close>. Closing the writer and waiting for it are taken to succeed. The attribute
  \<open>_message_listener_task\<close> is assigned in \<open>connect\<close> only, so before the first
  \<open>connect\<close> it holds no task and \<open>.cancel()\<close> is an \<open>AttributeError\<close>.
\<close>

definition disconnect :: "provider \<Rightarrow> unit outcome" where
  "disconnect s =
     (let s1 = (case writer s of
                  Some w \<Rightarrow>
                    if \<not> closing w
                    then s\<lparr>writer := None, logged := logged s @ [LogDisconnected (endpoint_uri s)]\<rparr>
                    else s
                | None \<Rightarrow> s)
      in case message_listener_task s1 of
           None \<Rightarrow> (Inl (AttributeError ''cancel''), s1)
         | Some t \<Rightarrow>
             (case cancel_and_await t of
                (Inr u, t') \<Rightarrow>
                  (Inr (), clear_caches (s1\<lparr>message_listener_task := Some t', reader := None\<rparr>))
              | (Inl e, t') \<Rightarrow>
                  if e = CancelledError \<or> e = StopAsyncIteration
                  then (Inr (), clear_caches (s1\<lparr>message_listener_task := Some t'\<rparr>))
                  else (Inl e, s1\<lparr>message_listener_task := Some t'\<rparr>)))"

section \<open>make\_request\<close>

text \<open>
  Modelled from the spec: \<open>encode_rpc_request\<close> (the base provider is not among the
  sources). It allocates a fresh id and encodes the request \<open>{id, method, params}\<close>. The
  encoded bytes are identified with the request they encode, so that
  \<open>json.loads(request_data)\<close> is \<open>request_data\<close>.
\<close>

definition encode_rpc_request :: "string \<Rightarrow> json list \<Rightarrow> provider \<Rightarrow> json \<times> provider" where
  "encode_rpc_request method params s =
     (JObject [(''id'', JInt (int (request_counter s))),
               (''method'', JString method),
               (''params'', JArray params)],
      s\<lparr>request_counter := Suc (request_counter s)\<rparr>)"

text \<open>\<open>self.writer.write(request_data)\<close> and \<open>await self.writer.drain()\<close>.\<close>

definition write_drain :: "env \<Rightarrow> json \<Rightarrow> provider \<Rightarrow> unit outcome" where
  "write_drain E request_data s =
     (let k = written s; s1 = s\<lparr>written := Suc k\<rparr>
      in case write_result E k of
           Some e \<Rightarrow> (Inl e, s1)
         | None \<Rightarrow> (Inr (), s1\<lparr>sent := sent s1 @ [request_data]\<rparr>))"

text \<open>
  \<open>_reset_socket\<close>: close the writer, wait for it (both taken to succeed), and open a
  socket again. When the opening fails the provider keeps the closed writer.
\<close>

definition reset_socket :: "env \<Rightarrow> provider \<Rightarrow> unit outcome" where
  "reset_socket E s =
     (case writer s of
        None \<Rightarrow> (Inl (AttributeError ''close''), s)
      | Some w \<Rightarrow>
          (case async_get_ipc_socket E (s\<lparr>writer := Some (w\<lparr>closing := True\<rparr>)\<rparr>) of
             (Inl e, s1) \<Rightarrow> (Inl e, s1)
           | (Inr k, s1) \<Rightarrow>
               (Inr (), s1\<lparr>reader := Some k, writer := Some \<lparr>sock = k, closing = False\<rparr>\<rparr>)))"

text \<open>
  The \<open>try\<close> statement of \<open>make_request\<close>. Its handler catches every \<open>OSError\<close> and
  acts on \<open>EPIPE\<close> only; an exception raised inside the handler leaves it as it is.
\<close>

definition send_request :: "env \<Rightarrow> json \<Rightarrow> provider \<Rightarrow> unit outcome" where
  "send_request E request_data s =
     (case write_drain E request_data s of
        (Inr u, s1) \<Rightarrow> (Inr (), s1)
      | (Inl e, s1) \<Rightarrow>
          if is_OSError e then
            (if errno e = Some EPIPE then
               (case reset_socket E s1 of
                  (Inl e', s2) \<Rightarrow> (Inl e', s2)
                | (Inr u, s2) \<Rightarrow> write_drain E request_data s2)
             else (Inr (), s1))
          else (Inl e, s1))"

text \<open>
  The loop of \<open>_match_response_id_to_request_id\<close> under \<open>asyncio.wait_for\<close>. The first
  argument is the number of polls left before the timeout cancels the loop; the result
  \<open>None\<close> is that cancellation. Each \<open>await asyncio.sleep(0)\<close> lets the other tasks run.
\<close>

fun match_response_id_to_request_id ::
  "nat \<Rightarrow> env \<Rightarrow> json \<Rightarrow> provider \<Rightarrow> json option option \<times> provider" where
  "match_response_id_to_request_id 0 E request_id s = (None, s)"
| "match_response_id_to_request_id (Suc n) E request_id s =
     (let request_cache_key = generate_cache_key request_id;
          s1 = (other_tasks E (polled s) s)\<lparr>polled := Suc (polled s)\<rparr>
      in if map_of (request_response_cache s1) request_cache_key \<noteq> None
         then (let (popped_response, s2) =
                     pop_raw_response request_cache_key
                       (s1\<lparr>logged := logged s1 @ [LogPopping request_id]\<rparr>)
               in (Some popped_response, s2))
         else match_response_id_to_request_id n E request_id s1)"


text \<open>
  \<open>asyncio.wait_for(..., self.request_timeout)\<close>: a timeout that is not positive cancels the
  awaitable before it runs; a positive one leaves room for the polls that fit into it.
\<close>

definition polls_before_timeout :: "env \<Rightarrow> provider \<Rightarrow> nat" where
  "polls_before_timeout E s =
     (if request_timeout s \<le> 0 then 0 else polls_within E (request_timeout s))"

definition get_response_for_request_id :: "env \<Rightarrow> json \<Rightarrow> provider \<Rightarrow> json option outcome" where
  "get_response_for_request_id E request_id s =
     (case match_response_id_to_request_id (polls_before_timeout E s) E request_id s of
        (Some response, s1) \<Rightarrow> (Inr response, s1)
      | (None, s1) \<Rightarrow> (Inl (TimeExhausted request_id (request_timeout s1)), s1))"

text \<open>
  \<open>make_request\<close>, the function under the decorator \<open>async_handle_request_caching\<close>
  (not among the sources; a request that it does not answer from its cache reaches this
  function unchanged).
\<close>

definition make_request :: "env \<Rightarrow> string \<Rightarrow> json list \<Rightarrow> provider \<Rightarrow> json option outcome" where
  "make_request E method params s =
     (let (request_data, s0) = encode_rpc_request method params s
      in case writer s0 of
           None \<Rightarrow> (Inl (ProviderConnectionError NotInitiated), s0)
         | Some w \<Rightarrow>
             (case send_request E request_data s0 of
                (Inl e, s1) \<Rightarrow> (Inl e, s1)
              | (Inr u, s1) \<Rightarrow>
                  (case py_get request_data ''id'' of
                     Inr (Some current_request_id) \<Rightarrow>
                       get_response_for_request_id E current_request_id s1
                   | Inr None \<Rightarrow> (Inl (KeyError ''id''), s1)
                   | Inl e \<Rightarrow> (Inl e, s1))))"

section \<open>is\_connected\<close>

definition is_connected :: "env \<Rightarrow> bool \<Rightarrow> provider \<Rightarrow> bool outcome" where
  "is_connected E show_traceback s =
     (case make_request E ''web3_clientVersion'' [] s of
        (Inr response, s1) \<Rightarrow> (Inr True, s1)
      | (Inl e, s1) \<Rightarrow>
          if is_OSError e \<or> is_ProviderConnectionError e then
            (if show_traceback
             then (Inl (ProviderConnectionError (ProblemConnecting e)), s1)
             else (Inr False, s1))
          else (Inl e, s1))"

section \<open>The message listener\<close>

text \<open>
  The decoder consumes at least one character of whatever it decodes, so the inner loop of the
  listener, which cuts the decoded value off the buffer, ends.
\<close>

lemma length_skip_ws: "length (skip_ws s) \<le> length s"
  by (simp add: skip_ws_def length_dropWhile_le)

lemma skip_ws_Cons: "skip_ws s = c # r \<Longrightarrow> length r < length s"
  using length_skip_ws [of s] by simp

lemma scanstring_consumes: "scanstring s = Some (str, r) \<Longrightarrow> length r < length s"
proof (induction s arbitrary: str r rule: scanstring.induct)
  case 1
  then show ?case by simp
next
  case (2 c cs)
  then show ?case
    by (fastforce split: if_splits list.splits option.splits prod.splits)
qed

lemma literal_consumes: "literal p v s = Some (w, r) \<Longrightarrow> p \<noteq> [] \<Longrightarrow> length r < length s"
  by (cases s) (auto simp: literal_def split: if_splits)

lemma match_integer_consumes: "match_integer s = Some (l, r) \<Longrightarrow> length r < length s"
  unfolding match_integer_def
  apply (auto simp: Let_def split: list.splits if_splits prod.splits)
  apply (metis dropWhile.simps(2) length_dropWhile_le less_Suc_eq_le less_SucI)+
  done

lemma match_frac_le: "match_frac s = (l, r) \<Longrightarrow> length r \<le> length s"
  unfolding match_frac_def
  apply (auto split: list.splits if_splits)
  apply (metis dropWhile.simps(2) length_dropWhile_le le_SucI)
  done

lemma match_exp_le: "match_exp s = (l, r) \<Longrightarrow> length r \<le> length s"
  unfolding match_exp_def
  apply (auto simp: Let_def split: list.splits if_splits prod.splits)
  apply (metis dropWhile.simps(2) length_dropWhile_le le_SucI)+
  done

lemma match_number_consumes: "match_number s = Some (v, r) \<Longrightarrow> length r < length s"
  unfolding match_number_def
  by (auto split: option.splits prod.splits if_splits dest!: match_integer_consumes match_frac_le match_exp_le)

lemma match_constant_consumes: "match_constant s = Some (v, r) \<Longrightarrow> length r < length s"
  unfolding match_constant_def
  by (auto split: option.splits dest: literal_consumes match_number_consumes)

lemma scan_consumes_all:
  "(\<forall>s v r. scan_once n s = Some (v, r) \<longrightarrow> length r < length s) \<and>
   (\<forall>s ps r. JSONObject n s = Some (ps, r) \<longrightarrow> length r < length s) \<and>
   (\<forall>s vs r. JSONArray n s = Some (vs, r) \<longrightarrow> length r < length s)"
proof (induction n)
  case 0
  show ?case by simp
next
  case (Suc n)
  have ih1: "\<And>s v r. scan_once n s = Some (v, r) \<Longrightarrow> length r < length s"
    and ih2: "\<And>s ps r. JSONObject n s = Some (ps, r) \<Longrightarrow> length r < length s"
    and ih3: "\<And>s vs r. JSONArray n s = Some (vs, r) \<Longrightarrow> length r < length s"
    using Suc.IH by blast+
  have p1: "length r < length s" if h: "scan_once (Suc n) s = Some (v, r)" for s v r
  proof (cases s)
    case Nil
    with h show ?thesis by simp
  next
    case (Cons c cs)
    consider (str) "c = CHR 0x22" | (obj) "c \<noteq> CHR 0x22" "c = CHR ''{''"
      | (arr) "c \<noteq> CHR 0x22" "c \<noteq> CHR ''{''" "c = CHR ''[''"
      | (const) "c \<noteq> CHR 0x22" "c \<noteq> CHR ''{''" "c \<noteq> CHR ''[''"
      by blast
    then show ?thesis
    proof cases
      case str
      with h Cons show ?thesis
        by (auto split: option.splits dest: scanstring_consumes)
    next
      case obj
      with h Cons obtain d ds where sk: "skip_ws cs = d # ds"
        by (auto split: list.splits)
      have l: "length ds < length cs" using sk by (rule skip_ws_Cons)
      from h Cons obj sk have "r = ds \<or> (\<exists>ps. JSONObject n ds = Some (ps, r))"
        by (auto split: if_splits option.splits)
      then show ?thesis using l Cons ih2 by fastforce
    next
      case arr
      with h Cons obtain d ds where sk: "skip_ws cs = d # ds"
        by (auto split: list.splits)
      have l: "length ds < length cs" using sk by (rule skip_ws_Cons)
      from h Cons arr sk have "r = ds \<or> (\<exists>vs. JSONArray n (d # ds) = Some (vs, r))"
        by (auto split: if_splits option.splits)
      then show ?thesis using l Cons ih3 by fastforce
    next
      case const
      with h Cons have "match_constant s = Some (v, r)" by simp
      then show ?thesis by (rule match_constant_consumes)
    qed
  qed
  have p2: "length r < length s" if h: "JSONObject (Suc n) s = Some (ps, r)" for s ps r
  proof -
    from h obtain key s1 where a: "scanstring s = Some (key, s1)"
      by (auto split: option.splits)
    from h a obtain colon s2 where b: "skip_ws s1 = colon # s2"
      by (auto split: list.splits)
    from h a b obtain v s3 where c: "scan_once n (skip_ws s2) = Some (v, s3)"
      by (auto split: if_splits option.splits)
    from h a b c obtain nextchar s4 where d: "skip_ws s3 = nextchar # s4"
      by (auto split: if_splits list.splits)
    have l: "length s4 < length s"
      using scanstring_consumes [OF a] skip_ws_Cons [OF b] ih1 [OF c] skip_ws_Cons [OF d]
        length_skip_ws [of s2] by linarith
    from h a b c d have "r = s4 \<or> (\<exists>q s5 ps'. skip_ws s4 = q # s5 \<and> JSONObject n s5 = Some (ps', r))"
      by (auto split: if_splits list.splits option.splits)
    then show ?thesis
    proof
      assume "r = s4" with l show ?thesis by simp
    next
      assume "\<exists>q s5 ps'. skip_ws s4 = q # s5 \<and> JSONObject n s5 = Some (ps', r)"
      then obtain q s5 ps' where e: "skip_ws s4 = q # s5" and f: "JSONObject n s5 = Some (ps', r)"
        by blast
      show ?thesis using l skip_ws_Cons [OF e] ih2 [OF f] by linarith
    qed
  qed
  have p3: "length r < length s" if h: "JSONArray (Suc n) s = Some (vs, r)" for s vs r
  proof -
    from h obtain v s1 where a: "scan_once n s = Some (v, s1)"
      by (auto split: option.splits)
    from h a obtain nextchar s2 where b: "skip_ws s1 = nextchar # s2"
      by (auto split: list.splits)
    have l: "length s2 < length s"
      using ih1 [OF a] skip_ws_Cons [OF b] by linarith
    from h a b have "r = s2 \<or> (\<exists>vs'. JSONArray n (skip_ws s2) = Some (vs', r))"
      by (auto split: if_splits option.splits)
    then show ?thesis
      using l ih3 length_skip_ws [of s2] by fastforce
  qed
  show ?case using p1 p2 p3 by blast
qed

lemma raw_decode_pos:
  assumes "raw_decode s = Some (v, pos)"
  shows "0 < pos" and "pos \<le> length s"
proof -
  from assms obtain r where a: "scan_once (Suc (length s)) s = Some (v, r)" and b: "pos = length s - length r"
    by (auto simp: raw_decode_def split: option.splits)
  have "length r < length s" using scan_consumes_all a by blast
  then show "0 < pos" and "pos \<le> length s" using b by simp_all
qed

text \<open>
  The bound on the nesting depth does not limit the decoder: a value that is decoded with any
  bound is decoded by \<open>raw_decode\<close>, so \<open>raw_decode\<close> fails only where the text has no
  JSON value at its start.
\<close>

lemma scan_consumes:
  "scan_once n s = Some (v, r) \<Longrightarrow> length r < length s"
  "JSONObject n s = Some (ps, r) \<Longrightarrow> length r < length s"
  "JSONArray n s = Some (vs, r) \<Longrightarrow> length r < length s"
  using scan_consumes_all [of n] by blast+

lemma scan_fuel_enough:
  "(\<forall>s v r n. scan_once m s = Some (v, r) \<longrightarrow> length s - length r \<le> n \<longrightarrow>
       scan_once n s = Some (v, r)) \<and>
   (\<forall>s ps r n. JSONObject m s = Some (ps, r) \<longrightarrow> length s - length r \<le> n \<longrightarrow>
       JSONObject n s = Some (ps, r)) \<and>
   (\<forall>s vs r n. JSONArray m s = Some (vs, r) \<longrightarrow> length s - length r \<le> n \<longrightarrow>
       JSONArray n s = Some (vs, r))"
proof (induction m)
  case 0
  show ?case by simp
next
  case (Suc m)
  have ih1: "\<And>s v r n. scan_once m s = Some (v, r) \<Longrightarrow> length s - length r \<le> n \<Longrightarrow>
       scan_once n s = Some (v, r)"
    and ih2: "\<And>s ps r n. JSONObject m s = Some (ps, r) \<Longrightarrow> length s - length r \<le> n \<Longrightarrow>
       JSONObject n s = Some (ps, r)"
    and ih3: "\<And>s vs r n. JSONArray m s = Some (vs, r) \<Longrightarrow> length s - length r \<le> n \<Longrightarrow>
       JSONArray n s = Some (vs, r)"
    using Suc.IH by blast+
  have p1: "scan_once n s = Some (v, r)"
    if h: "scan_once (Suc m) s = Some (v, r)" and b: "length s - length r \<le> n" for s v r n
  proof -
    have lr: "length r < length s" using h by (rule scan_consumes)
    then obtain n' where n: "n = Suc n'" using b by (cases n) auto
    from lr obtain c cs where s: "s = c # cs" by (cases s) auto
    consider (str) "c = CHR 0x22" | (obj) "c \<noteq> CHR 0x22" "c = CHR ''{''"
      | (arr) "c \<noteq> CHR 0x22" "c \<noteq> CHR ''{''" "c = CHR ''[''"
      | (const) "c \<noteq> CHR 0x22" "c \<noteq> CHR ''{''" "c \<noteq> CHR ''[''"
      by blast
    then show ?thesis
    proof cases
      case str
      with h s n show ?thesis by simp
    next
      case obj
      with h s obtain d ds where sk: "skip_ws cs = d # ds"
        by (auto split: list.splits)
      have l: "length ds < length cs" using sk by (rule skip_ws_Cons)
      show ?thesis
      proof (cases "d = CHR ''}''")
        case True
        with h s n obj sk show ?thesis by simp
      next
        case False
        with h s obj sk obtain ps where q: "d = CHR 0x22" and o: "JSONObject m ds = Some (ps, r)"
          and v: "v = JObject ps"
          by (auto split: if_splits option.splits)
        have "length ds - length r \<le> n'" using l b s n by simp
        then have "JSONObject n' ds = Some (ps, r)" using ih2 [OF o] by simp
        with s n obj sk False q v show ?thesis by simp
      qed
    next
      case arr
      with h s obtain d ds where sk: "skip_ws cs = d # ds"
        by (auto split: list.splits)
      have l: "length ds < length cs" using sk by (rule skip_ws_Cons)
      show ?thesis
      proof (cases "d = CHR '']''")
        case True
        with h s n arr sk show ?thesis by simp
      next
        case False
        with h s arr sk obtain vs where o: "JSONArray m (d # ds) = Some (vs, r)"
          and v: "v = JArray vs"
          by (auto split: if_splits option.splits)
        have "length (d # ds) - length r \<le> n'" using l b s n by simp
        then have "JSONArray n' (d # ds) = Some (vs, r)" using ih3 [OF o] by simp
        with s n arr sk False v show ?thesis by simp
      qed
    next
      case const
      with h s n show ?thesis by simp
    qed
  qed
  have p2: "JSONObject n s = Some (ps, r)"
    if h: "JSONObject (Suc m) s = Some (ps, r)" and b: "length s - length r \<le> n" for s ps r n
  proof -
    have lr: "length r < length s" using h by (rule scan_consumes)
    then obtain n' where n: "n = Suc n'" using b by (cases n) auto
    from h obtain key s1 where a: "scanstring s = Some (key, s1)"
      by (auto split: option.splits)
    from h a obtain colon s2 where sk1: "skip_ws s1 = colon # s2"
      by (auto split: list.splits)
    from h a sk1 have colon: "colon = CHR '':''"
      by (auto split: if_splits)
    from h a sk1 colon obtain v s3 where c: "scan_once m (skip_ws s2) = Some (v, s3)"
      by (auto split: option.splits)
    from h a sk1 colon c obtain nextchar s4 where sk3: "skip_ws s3 = nextchar # s4"
      by (auto split: list.splits)
    have l1: "length s1 < length s" using a by (rule scanstring_consumes)
    have l2: "length s2 < length s1" using sk1 by (rule skip_ws_Cons)
    have l3: "length s3 < length (skip_ws s2)" using c by (rule scan_consumes)
    have l4: "length s4 < length s3" using sk3 by (rule skip_ws_Cons)
    have l2': "length (skip_ws s2) \<le> length s2" by (rule length_skip_ws)
    show ?thesis
    proof (cases "nextchar = CHR ''}''")
      case True
      with h a sk1 colon c sk3 have r: "r = s4" and ps: "ps = [(key, v)]" by auto
      have "length (skip_ws s2) - length s3 \<le> n'"
        using l1 l2 l2' l3 l4 b n unfolding r by arith
      then have "scan_once n' (skip_ws s2) = Some (v, s3)" using ih1 [OF c] by simp
      with n a sk1 colon sk3 True r ps show ?thesis by simp
    next
      case False
      with h a sk1 colon c sk3 have comma: "nextchar = CHR '',''"
        by (auto split: if_splits)
      from h a sk1 colon c sk3 False comma obtain q s5 where sk4: "skip_ws s4 = q # s5"
        by (auto split: list.splits)
      from h a sk1 colon c sk3 False comma sk4 obtain ps' where q: "q = CHR 0x22"
        and o: "JSONObject m s5 = Some (ps', r)" and ps: "ps = (key, v) # ps'"
        by (auto split: if_splits option.splits)
      have l5: "length s5 < length s4" using sk4 by (rule skip_ws_Cons)
      have l6: "length r < length s5" using o by (rule scan_consumes)
      have "length (skip_ws s2) - length s3 \<le> n'"
        using l1 l2 l2' l3 l4 l5 l6 b n by arith
      then have v': "scan_once n' (skip_ws s2) = Some (v, s3)" using ih1 [OF c] by simp
      have "length s5 - length r \<le> n'"
        using l1 l2 l2' l3 l4 l5 l6 b n by arith
      then have o': "JSONObject n' s5 = Some (ps', r)" using ih2 [OF o] by simp
      from n a sk1 colon sk3 False comma sk4 q ps v' o' show ?thesis by simp
    qed
  qed
  have p3: "JSONArray n s = Some (vs, r)"
    if h: "JSONArray (Suc m) s = Some (vs, r)" and b: "length s - length r \<le> n" for s vs r n
  proof -
    have lr: "length r < length s" using h by (rule scan_consumes)
    then obtain n' where n: "n = Suc n'" using b by (cases n) auto
    from h obtain v s1 where a: "scan_once m s = Some (v, s1)"
      by (auto split: option.splits)
    from h a obtain nextchar s2 where sk: "skip_ws s1 = nextchar # s2"
      by (auto split: list.splits)
    have l1: "length s1 < length s" using a by (rule scan_consumes)
    have l2: "length s2 < length s1" using sk by (rule skip_ws_Cons)
    show ?thesis
    proof (cases "nextchar = CHR '']''")
      case True
      with h a sk have r: "r = s2" and vs: "vs = [v]" by auto
      have "length s - length s1 \<le> n'" using l1 l2 b n unfolding r by arith
      then have "scan_once n' s = Some (v, s1)" using ih1 [OF a] by simp
      with n sk True r vs show ?thesis by simp
    next
      case False
      with h a sk have comma: "nextchar = CHR '',''"
        by (auto split: if_splits)
      from h a sk False comma obtain vs' where o: "JSONArray m (skip_ws s2) = Some (vs', r)"
        and vs: "vs = v # vs'"
        by (auto split: option.splits)
      have l3: "length r < length (skip_ws s2)" using o by (rule scan_consumes)
      have l3': "length (skip_ws s2) \<le> length s2" by (rule length_skip_ws)
      have "length s - length s1 \<le> n'" using l1 l2 l3 l3' b n by arith
      then have v': "scan_once n' s = Some (v, s1)" using ih1 [OF a] by simp
      have "length (skip_ws s2) - length r \<le> n'" using l1 l2 l3 l3' b n by arith
      then have o': "JSONArray n' (skip_ws s2) = Some (vs', r)" using ih3 [OF o] by simp
      from n sk False comma vs v' o' show ?thesis by simp
    qed
  qed
  show ?case using p1 p2 p3 by blast
qed

lemma raw_decode_fuel_adequate:
  assumes "scan_once m s = Some (v, r)"
  shows "raw_decode s = Some (v, length s - length r)"
proof -
  have "length s - length r \<le> Suc (length s)" by simp
  then have "scan_once (Suc (length s)) s = Some (v, r)"
    using scan_fuel_enough [of m] assms by blast
  then show ?thesis by (simp add: raw_decode_def)
qed

lemma raw_decode_None_any_fuel:
  assumes "raw_decode s = None"
  shows "scan_once m s = None"
proof (cases "scan_once m s")
  case None
  then show ?thesis .
next
  case (Some a)
  then show ?thesis using assms raw_decode_fuel_adequate [of m s "fst a" "snd a"] by simp
qed


text \<open>
  The inner loop \<open>while raw_message:\<close> of the listener. It ends at the first
  \<open>JSONDecodeError\<close> with the buffer as it is, or with the exception that the
  classification or the Request Processor raises.
\<close>

function process_raw_message :: "string \<Rightarrow> provider \<Rightarrow> string outcome" where
  "process_raw_message raw_message s =
     (if raw_message = [] then (Inr raw_message, s)
      else
        (case raw_decode raw_message of
           None \<Rightarrow> (Inr raw_message, s)
         | Some (response, pos) \<Rightarrow>
             (case py_get response ''method'' of
                Inl e \<Rightarrow> (Inl e, s)
              | Inr m \<Rightarrow>
                  (let is_subscription = (m = Some (JString ''eth_subscription''))
                   in case cache_raw_response response is_subscription s of
                        (Inl e, s1) \<Rightarrow> (Inl e, s1)
                      | (Inr u, s1) \<Rightarrow>
                          process_raw_message (lstrip (drop pos raw_message)) s1))))"
  by pat_completeness auto
termination
proof (relation "measure (\<lambda>(raw_message, s). length raw_message)", goal_cases)
  case 1
  show ?case by simp
next
  case (2 raw_message s x2 response pos m is_subscription x y u)
  have "0 < pos" using 2 raw_decode_pos(1) by metis
  moreover have "length (lstrip (drop pos raw_message)) \<le> length raw_message - pos"
    by (metis length_drop length_dropWhile_le lstrip_def)
  ultimately show ?case using 2 by (cases raw_message) auto
qed


text \<open>
  The handler of the listener in the strict configuration: \<open>cancel()\<close> on every task of the
  loop, the listener's own task among them, and then \<open>raise e\<close>, with which the listener's
  task ends.
\<close>

definition cancel_all_tasks :: "provider \<Rightarrow> provider" where
  "cancel_all_tasks s =
     s\<lparr>tasks := map cancel (tasks s),
       message_listener_task := map_option cancel (message_listener_task s)\<rparr>"

text \<open>
  The body of the \<open>try\<close> statement of the listener: read, append, decode and classify.
  The first argument is what \<open>to_text(await self.reader.read(4096))\<close> comes to: the
  decoded text of the chunk, or the exception raised by the read or by the decoding of its
  bytes.
\<close>

definition read_and_classify :: "(exn + string) \<Rightarrow> string \<Rightarrow> provider \<Rightarrow> string outcome" where
  "read_and_classify read_result raw_message s =
     (case reader s of
        None \<Rightarrow> (Inl (AttributeError ''read''), s)
      | Some r \<Rightarrow>
          (case read_result of
             Inl e \<Rightarrow> (Inl e, s)
           | Inr text \<Rightarrow> process_raw_message (raw_message @ lstrip text) s))"

text \<open>
  One round of the outer \<open>while True\<close> loop: the \<open>try\<close> statement with its handler. The
  result is the exception with which the listener ends, or the buffer with which it goes on.
\<close>

definition listener_iteration :: "(exn + string) \<Rightarrow> string \<Rightarrow> provider \<Rightarrow> string outcome" where
  "listener_iteration read_result raw_message s =
     (case read_and_classify read_result raw_message s of
        (Inr raw_message', s1) \<Rightarrow> (Inr raw_message', s1)
      | (Inl e, s1) \<Rightarrow>
          if is_Exception e then
            (if \<not> silence_listener_task_exceptions s1
             then (Inl e, (cancel_all_tasks s1)\<lparr>message_listener_task := Some (Raised e)\<rparr>)
             else (Inr [], s1\<lparr>logged := logged s1 @ [LogListenerError e]\<rparr>))
          else (Inl e, s1\<lparr>message_listener_task :=
                             Some (if e = CancelledError then Cancelled else Raised e)\<rparr>))"

text \<open>
  The listener over the reads that the socket delivers, in order. When they are used up the
  listener is suspended in the next read, and the result is its buffer.
\<close>

fun message_listener_loop :: "(exn + string) list \<Rightarrow> string \<Rightarrow> provider \<Rightarrow> string outcome" where
  "message_listener_loop [] raw_message s = (Inr raw_message, s)"
| "message_listener_loop (r # rs) raw_message s =
     (case listener_iteration r raw_message s of
        (Inl e, s1) \<Rightarrow> (Inl e, s1)
      | (Inr raw_message', s1) \<Rightarrow> message_listener_loop rs raw_message' s1)"

definition message_listener :: "(exn + string) list \<Rightarrow> provider \<Rightarrow> string outcome" where
  "message_listener reads s =
     message_listener_loop reads [] (s\<lparr>logged := logged s @ [LogListenerStarted]\<rparr>)"

section \<open>The subscription iterator of the facade\<close>




section \<open>Concrete providers and surroundings\<close>

text \<open>A provider as its constructor leaves it, with the default timeout and retry count.\<close>

definition new_provider :: provider where
  "new_provider =
     \<lparr>ipc_path = ''/tmp/geth.ipc'', endpoint_uri = ''/tmp/geth.ipc'', request_timeout = 10,
      max_connection_retries = 5, silence_listener_task_exceptions = False,
      reader = None, writer = None, message_listener_task = None, request_counter = 0,
      request_response_cache = [], subscription_queues = [], tasks = [],
      opened = 0, written = 0, polled = 0, sent = [], slept = [], logged = []\<rparr>"


definition silent_node :: env where
  "silent_node =
     \<lparr>open_result = (\<lambda>k. None), write_result = (\<lambda>k. None),
      other_tasks = (\<lambda>k s. s), polls_within = (\<lambda>t. 3)\<rparr>"

text \<open>The provider after \<open>connect\<close> to a node that accepts the connection.\<close>

definition connected_provider :: provider where
  "connected_provider =
     new_provider\<lparr>reader := Some 0, writer := Some \<lparr>sock = 0, closing = False\<rparr>,
                  message_listener_task := Some Pending, opened := 1\<rparr>"

text \<open>
  The connected provider while two other tasks are on the event loop, one pending and one
  that has returned.
\<close>

definition busy_provider :: provider where
  "busy_provider = connected_provider\<lparr>tasks := [Pending, Returned]\<rparr>"





section \<open>Properties of connect\<close>


text \<open>
  Against a node that accepts the connection, \<open>connect\<close> on a new provider succeeds at the
  first attempt, without sleeping.
\<close>

lemma connect_first_attempt:
  "connect silent_node new_provider = Some (Inr (), connected_provider)"
  unfolding connect_def
  by (subst connect_loop.simps)
     (simp add: async_get_ipc_socket_def silent_node_def new_provider_def
        create_listener_task_def connected_provider_def)

text \<open>
  With a negative retry count the attempt count never meets it: against a socket that cannot
  be opened the loop does not return.
\<close>

lemma connect_loop_never_returns:
  assumes fail: "\<forall>k. \<exists>n. open_result E k = Some (OSError n)"
    and neg: "max_connection_retries s < 0" and a: "0 \<le> a"
  shows "connect_loop E a b s = None"
proof -
  have "\<forall>E a b s y. connect_loop E a b s = Some y \<longrightarrow>
          \<not> ((\<forall>k. \<exists>n. open_result E k = Some (OSError n)) \<and> max_connection_retries s < 0 \<and> 0 \<le> a)"
  proof (induction rule: connect_loop.fixp_induct)
    case 1
    show ?case
      using option_admissible [of "\<lambda>x (y :: unit outcome). case x of (((E, a), b), s) \<Rightarrow>
          \<not> ((\<forall>k. \<exists>n. open_result E k = Some (OSError n)) \<and> max_connection_retries s < 0 \<and> 0 \<le> a)"]
      by (simp add: split_paired_All)
  next
    case 2
    show ?case by simp
  next
    case (3 f)
    show ?case
    proof (intro allI impI notI)
      fix E a b s y
      assume eq: "(if a = max_connection_retries s then Some (Inr (), s)
      else
        let connection_attempts = a + 1
        in case async_get_ipc_socket E s of
             (Inr k, s1) \<Rightarrow>
               Some (Inr (), create_listener_task
                       (s1\<lparr>reader := Some k, writer := Some \<lparr>sock = k, closing = False\<rparr>\<rparr>))
           | (Inl e, s1) \<Rightarrow>
               if is_OSError e then
                 (if connection_attempts = max_connection_retries s1
                  then Some (Inl (ProviderConnectionError
                         (RetriesExceeded (endpoint_uri s1) (max_connection_retries s1))), s1)
                  else f E connection_attempts (b * backoff_rate_change)
                         (s1\<lparr>logged := logged s1 @ [LogConnectRetry (endpoint_uri s1) b],
                             slept := slept s1 @ [b]\<rparr>))
               else Some (Inl e, s1)) = Some y"
        and h: "(\<forall>k. \<exists>n. open_result E k = Some (OSError n)) \<and> max_connection_retries s < 0 \<and> 0 \<le> a"
      obtain m where m: "open_result E (opened s) = Some (OSError m)" using h by blast
      let ?s' = "s\<lparr>opened := Suc (opened s), logged := logged s @ [LogConnectRetry (endpoint_uri s) b],
                             slept := slept s @ [b]\<rparr>"
      have "f E (a + 1) (b * backoff_rate_change) ?s' = Some y"
        using eq h m by (simp add: async_get_ipc_socket_def Let_def split: if_splits)
      moreover have "(\<forall>k. \<exists>n. open_result E k = Some (OSError n)) \<and> max_connection_retries ?s' < 0 \<and> 0 \<le> a + 1"
        using h by simp
      ultimately show False using 3 by blast
    qed
  qed
  then have main: "\<And>y. connect_loop E a b s = Some y \<Longrightarrow>
          \<not> ((\<forall>k. \<exists>n. open_result E k = Some (OSError n)) \<and> max_connection_retries s < 0 \<and> 0 \<le> a)"
    by blast
  show ?thesis
  proof (cases "connect_loop E a b s")
    case None
    then show ?thesis .
  next
    case (Some y)
    then show ?thesis using main [OF Some] assms by blast
  qed
qed




section \<open>Properties of make\_request\<close>

text \<open>
  Claim C10, as the code has it. For every call of \<open>make_request\<close> made before a connection
  has been initiated (the writer is \<open>None\<close>), the call raises \<open>ProviderConnectionError\<close>
  saying that the connection has not been initiated. No byte is written and neither the
  socket, nor the listener, nor the Request Processor is touched; the request has been encoded
  before the check, so the id that the encoding allocated is used up.
\<close>

theorem make_request_not_initiated:
  assumes "writer s = None"
  shows "make_request E method params s =
           (Inl (ProviderConnectionError NotInitiated),
            s\<lparr>request_counter := Suc (request_counter s)\<rparr>)"
  using assms by (simp add: make_request_def encode_rpc_request_def)

text \<open>Claim C10, the amended statement on a provider that was never connected.\<close>

theorem make_request_not_initiated_witness:
  "writer new_provider = None \<and>
   make_request silent_node ''eth_blockNumber'' [] new_provider =
     (Inl (ProviderConnectionError NotInitiated), new_provider\<lparr>request_counter := 1\<rparr>)"
  using make_request_not_initiated [of new_provider silent_node "''eth_blockNumber''" "[]"]
  by (simp add: new_provider_def)

text \<open>
  Claim C10 as stated fails: the call that raises on a provider that was never connected
  leaves the provider in another state than it found it.
\<close>

theorem make_request_not_initiated_changes_state:
  "snd (make_request silent_node ''eth_blockNumber'' [] new_provider) \<noteq> new_provider"
  by (simp add: make_request_def encode_rpc_request_def new_provider_def)

text \<open>
  A write that fails with an \<open>OSError\<close> other than a broken pipe is caught by the handler
  and not raised again: the request counts as sent although nothing reached the socket.
\<close>

lemma send_request_other_OSError:
  assumes "write_result E (written s) = Some (OSError n)" and "n \<noteq> EPIPE"
  shows "send_request E request_data s = (Inr (), s\<lparr>written := Suc (written s)\<rparr>)"
  using assms by (simp add: send_request_def write_drain_def)










section \<open>Properties of is\_connected\<close>

text \<open>
  Claim C8, as the code has it. \<open>is_connected(show_traceback)\<close> issues the call
  \<open>web3_clientVersion\<close> through \<open>make_request\<close>, end to end, and returns \<open>True\<close> when it
  succeeds. When the call fails with an \<open>OSError\<close> or a \<open>ProviderConnectionError\<close>, it
  returns \<open>False\<close>, or with \<open>show_traceback\<close> raises a \<open>ProviderConnectionError\<close> that
  carries the failure. Any other failure of the call is raised as it is, whatever
  \<open>show_traceback\<close> says.
\<close>

theorem is_connected_outcome:
  assumes "make_request E ''web3_clientVersion'' [] s = (r, s')"
  shows "is_connected E show_traceback s =
     (case r of
        Inr response \<Rightarrow> (Inr True, s')
      | Inl e \<Rightarrow>
          if is_OSError e \<or> is_ProviderConnectionError e
          then (if show_traceback
                then (Inl (ProviderConnectionError (ProblemConnecting e)), s')
                else (Inr False, s'))
          else (Inl e, s'))"
  using assms by (simp add: is_connected_def split: sum.splits)

text \<open>
  Claim C8, the amended statement on a provider that was never connected: the call fails with
  \<open>ProviderConnectionError\<close>, which becomes \<open>False\<close> or the connection error.
\<close>

theorem is_connected_outcome_witness:
  "is_connected silent_node False new_provider = (Inr False, new_provider\<lparr>request_counter := 1\<rparr>) \<and>
   is_connected silent_node True new_provider =
     (Inl (ProviderConnectionError (ProblemConnecting (ProviderConnectionError NotInitiated))),
      new_provider\<lparr>request_counter := 1\<rparr>)"
proof -
  have m: "make_request silent_node ''web3_clientVersion'' [] new_provider =
     (Inl (ProviderConnectionError NotInitiated), new_provider\<lparr>request_counter := 1\<rparr>)"
    by (simp add: make_request_def encode_rpc_request_def new_provider_def)
  show ?thesis
    using is_connected_outcome [OF m, of False] is_connected_outcome [OF m, of True] by simp
qed

text \<open>
  Claim C8 as stated fails on a connected provider whose node never answers: the call fails
  with \<open>TimeExhausted\<close>, and \<open>is_connected\<close> neither returns \<open>False\<close> nor raises a
  connection error, but lets \<open>TimeExhausted\<close> through, with and without
  \<open>show_traceback\<close>.
\<close>

theorem is_connected_timeout_not_swallowed:
  "fst (is_connected silent_node False connected_provider) = Inl (TimeExhausted (JInt 0) 10) \<and>
   fst (is_connected silent_node True connected_provider) = Inl (TimeExhausted (JInt 0) 10)"
  by code_simp

section \<open>Properties of the message listener\<close>

text \<open>
  Reading and classifying touches the two caches of the Request Processor and nothing else of
  the provider.
\<close>

lemma cache_raw_response_frame:
  "cache_raw_response m b s = (r, s1) \<Longrightarrow>
     s1 = s\<lparr>request_response_cache := request_response_cache s1,
            subscription_queues := subscription_queues s1\<rparr>"
  by (auto simp: cache_raw_response_def Let_def split: if_splits)

lemma process_raw_message_frame:
  "process_raw_message raw s = (r, s1) \<Longrightarrow>
     s1 = s\<lparr>request_response_cache := request_response_cache s1,
            subscription_queues := subscription_queues s1\<rparr>"
proof (induction raw s arbitrary: r s1 rule: process_raw_message.induct)
  case (1 raw_message s)
  show ?case
  proof (cases "raw_message = []")
    case True
    with "1.prems" show ?thesis by simp
  next
    case ne: False
    show ?thesis
    proof (cases "raw_decode raw_message")
      case None
      with "1.prems" ne show ?thesis by simp
    next
      case (Some a)
      obtain response pos where a: "a = (response, pos)" by (cases a)
      show ?thesis
      proof (cases "py_get response ''method''")
        case (Inl e)
        with "1.prems" ne Some a show ?thesis by simp
      next
        case (Inr m)
        obtain c s2 where c: "cache_raw_response response (m = Some (JString ''eth_subscription'')) s = (c, s2)"
          by (cases "cache_raw_response response (m = Some (JString ''eth_subscription'')) s")
        have f2: "s2 = s\<lparr>request_response_cache := request_response_cache s2,
            subscription_queues := subscription_queues s2\<rparr>"
          using c by (rule cache_raw_response_frame)
        show ?thesis
        proof (cases c)
          case (Inl e)
          with "1.prems" ne Some a Inr c f2 show ?thesis by simp
        next
          case r: (Inr u)
          have rec: "process_raw_message (lstrip (drop pos raw_message)) s2 = (r, s1)"
            using "1.prems" ne Some a Inr c r by simp
          have "s1 = s2\<lparr>request_response_cache := request_response_cache s1,
            subscription_queues := subscription_queues s1\<rparr>"
            using "1.IH" [OF ne Some a[symmetric] Inr refl c[symmetric] r rec] .
          then show ?thesis using f2
            by (metis (no_types, lifting) provider.surjective provider.update_convs(10) provider.update_convs(11))
        qed
      qed
    qed
  qed
qed


lemma read_and_classify_frame:
  assumes "read_and_classify read_result raw_message s = (r, s1)"
  shows "s1 = s\<lparr>request_response_cache := request_response_cache s1,
                 subscription_queues := subscription_queues s1\<rparr>"
proof (cases "reader s")
  case None
  with assms show ?thesis by (simp add: read_and_classify_def)
next
  case (Some a)
  show ?thesis
  proof (cases read_result)
    case (Inl e)
    with assms Some show ?thesis by (simp add: read_and_classify_def)
  next
    case (Inr chunk)
    with assms Some have "process_raw_message (raw_message @ lstrip chunk) s = (r, s1)"
      by (simp add: read_and_classify_def)
    then show ?thesis by (rule process_raw_message_frame)
  qed
qed

text \<open>
  Claim C6. For every exception (an \<open>Exception\<close>) that the body of the listener's
  \<open>try\<close> statement raises: under the strict configuration
  (\<open>silence_listener_task_exceptions\<close> false) the listener requests the cancellation of the
  tasks of the event loop and ends with that exception; under the lenient configuration the
  exception is logged, the buffer is reset to empty, and the listener goes on with the next
  read.
\<close>

theorem listener_unhandled_exception:
  assumes "read_and_classify read_result raw_message s = (Inl e, s1)"
    and "is_Exception e"
  shows "message_listener_loop (read_result # reads) raw_message s =
     (if silence_listener_task_exceptions s
      then message_listener_loop reads [] (s1\<lparr>logged := logged s @ [LogListenerError e]\<rparr>)
      else (Inl e, s1\<lparr>tasks := map cancel (tasks s),
                       message_listener_task := Some (Raised e)\<rparr>))"
proof -
  have f: "s1 = s\<lparr>request_response_cache := request_response_cache s1,
                 subscription_queues := subscription_queues s1\<rparr>"
    using assms(1) by (rule read_and_classify_frame)
  have "silence_listener_task_exceptions s1 = silence_listener_task_exceptions s"
    by (subst f) simp
  moreover have "logged s1 = logged s"
    by (subst f) simp
  moreover have "tasks s1 = tasks s"
    by (subst f) simp
  ultimately show ?thesis
    using assms by (simp add: listener_iteration_def cancel_all_tasks_def)
qed

text \<open>
  Claim C6 on a message that is a JSON list, which has no \<open>get\<close>: in the strict
  configuration the pending task is cancelled and the listener ends with the
  \<open>AttributeError\<close>; in the lenient configuration the error is logged and the next
  message is decoded from an empty buffer.
\<close>

theorem listener_unhandled_exception_witness:
  \<open>message_listener_loop [Inr ''[1]'', Inr ''{"id": 1, "result": true}''] [] busy_provider =
     (Inl (AttributeError ''get''),
      busy_provider\<lparr>tasks := [Cancelling, Returned],
                    message_listener_task := Some (Raised (AttributeError ''get''))\<rparr>) \<and>
   message_listener_loop [Inr ''[1]'', Inr ''{"id": 1, "result": true}''] []
       (busy_provider\<lparr>silence_listener_task_exceptions := True\<rparr>) =
     (Inr [],
      busy_provider\<lparr>silence_listener_task_exceptions := True,
        request_response_cache :=
          [(CacheKey (JInt 1), JObject [(''id'', JInt 1), (''result'', JBool True)])],
        logged := [LogListenerError (AttributeError ''get'')]\<rparr>)\<close>
proof -
  have a: "read_and_classify (Inr ''[1]'') [] busy_provider = (Inl (AttributeError ''get''), busy_provider)"
    by code_simp
  have b: "read_and_classify (Inr ''[1]'') [] (busy_provider\<lparr>silence_listener_task_exceptions := True\<rparr>)
     = (Inl (AttributeError ''get''), busy_provider\<lparr>silence_listener_task_exceptions := True\<rparr>)"
    by code_simp
  have e: "is_Exception (AttributeError ''get'')" by simp
  have c: \<open>message_listener_loop [Inr ''{"id": 1, "result": true}''] []
      (busy_provider\<lparr>silence_listener_task_exceptions := True,
          logged := logged (busy_provider\<lparr>silence_listener_task_exceptions := True\<rparr>) @ [LogListenerError (AttributeError ''get'')]\<rparr>) =
     (Inr [],
      busy_provider\<lparr>silence_listener_task_exceptions := True,
        request_response_cache :=
          [(CacheKey (JInt 1), JObject [(''id'', JInt 1), (''result'', JBool True)])],
        logged := [LogListenerError (AttributeError ''get'')]\<rparr>)\<close>
    by code_simp
  have d: "silence_listener_task_exceptions busy_provider = False"
     "tasks busy_provider = [Pending, Returned]"
    by code_simp+
  show ?thesis
    using listener_unhandled_exception [OF a e, of \<open>[Inr ''{"id": 1, "result": true}'']\<close>]
      listener_unhandled_exception [OF b e, of \<open>[Inr ''{"id": 1, "result": true}'']\<close>] c d
    by simp
qed




text \<open>
  Two complete messages in one chunk are deposited as two responses, in the order of their
  arrival.
\<close>

lemma listener_two_messages_one_chunk:
  \<open>message_listener [Inr ''{"id": 1, "result": "a"} {"id": 2, "result": "b"}''] connected_provider =
     (Inr [],
      connected_provider\<lparr>request_response_cache :=
          [(CacheKey (JInt 1), JObject [(''id'', JInt 1), (''result'', JString ''a'')]),
           (CacheKey (JInt 2), JObject [(''id'', JInt 2), (''result'', JString ''b'')])],
        logged := [LogListenerStarted]\<rparr>)\<close>
  by code_simp

text \<open>
  Claim C1 fails on the code. The payload \<open>{"id": 1, "result": "a b"}\<close> delivered in one
  chunk is deposited as it is. Delivered in two chunks, the second of which begins with the
  space inside the string, it is deposited with the result \<open>"ab"\<close>: \<open>lstrip\<close> is applied
  to each chunk before it is appended to the buffer.
\<close>

theorem listener_split_payload_differs:
  \<open>message_listener [Inr ''{"id": 1, "result": "a b"}''] connected_provider =
     (Inr [],
      connected_provider\<lparr>request_response_cache :=
          [(CacheKey (JInt 1), JObject [(''id'', JInt 1), (''result'', JString ''a b'')])],
        logged := [LogListenerStarted]\<rparr>) \<and>
   message_listener [Inr ''{"id": 1, "result": "a'', Inr '' b"}''] connected_provider =
     (Inr [],
      connected_provider\<lparr>request_response_cache :=
          [(CacheKey (JInt 1), JObject [(''id'', JInt 1), (''result'', JString ''ab'')])],
        logged := [LogListenerStarted]\<rparr>)\<close>
  by code_simp

section \<open>Properties of disconnect\<close>

text \<open>
  Once \<open>connect\<close> has created the listener task, and unless that task has ended with an
  exception of its own, \<open>disconnect\<close> succeeds and leaves both caches empty, and a second
  \<open>disconnect\<close> changes nothing.
\<close>

lemma disconnect_with_listener:
  assumes "message_listener_task s = Some t" and "\<forall>e. t \<noteq> Raised e"
  shows "fst (disconnect s) = Inr () \<and>
         request_response_cache (snd (disconnect s)) = [] \<and>
         subscription_queues (snd (disconnect s)) = [] \<and>
         disconnect (snd (disconnect s)) = (Inr (), snd (disconnect s))"
proof (cases "writer s")
  case None
  with assms show ?thesis
    by (cases t) (simp_all add: disconnect_def clear_caches_def)
next
  case (Some w)
  show ?thesis
  proof (cases "closing w")
    case True
    with assms Some show ?thesis
      by (cases t) (simp_all add: disconnect_def clear_caches_def)
  next
    case False
    with assms Some show ?thesis
      by (cases t) (simp_all add: disconnect_def clear_caches_def)
  qed
qed

text \<open>
  Claim C7 fails on the code. On a provider that was never connected, \<open>disconnect()\<close>
  raises \<open>AttributeError\<close>: there is no listener task to cancel, and the handler around the
  cancellation catches \<open>CancelledError\<close> and \<open>StopAsyncIteration\<close> only. The caches are
  not cleared.
\<close>

theorem disconnect_never_connected_raises:
  "disconnect new_provider = (Inl (AttributeError ''cancel''), new_provider)"
  by code_simp

section \<open>Properties of the subscription iterator\<close>






end
